theory Spec2Isabelle
  imports Complex_Main "HOL-Library.AList"
begin

section \<open>Python values, errors and the attribute dictionary\<close>

text \<open>
  The embedding follows \<^verbatim>\<open>src/boxdetect/config.py\<close>. A \<^verbatim>\<open>PipelinesConfig\<close> object is its
  \<^verbatim>\<open>__dict__\<close>: an insertion-ordered association list from attribute names to Python
  values. Every method takes the object and returns an outcome together with the object as
  the call leaves it, so that the state after a raised exception is part of the model.

  Two idealisations are made throughout. A finite float is a real number and float
  arithmetic is exact; the non-finite results of numpy's division (\<open>inf\<close>, \<open>nan\<close>) are
  separate values. A numpy integer is an unbounded integer.
\<close>

datatype pyfloat = Fin real | PosInf | NegInf | NaN

datatype pyval =
    PNone
  | PBool bool
  | PInt int
  | PFloat pyfloat
  | PStr string
  | PTuple "pyval list"
  | PList "pyval list"
  | PDict "(pyval \<times> pyval) list"

datatype error = AttributeError | IndexError | ValueError | TypeError | OSError | YAMLError

datatype 'a outcome = Raise error | Return 'a

type_synonym config = "(string \<times> pyval) list"

definition getattr :: "config \<Rightarrow> string \<Rightarrow> error + pyval" where
  "getattr self k = (case map_of self k of None \<Rightarrow> Inl AttributeError | Some v \<Rightarrow> Inr v)"

definition setattr :: "config \<Rightarrow> string \<Rightarrow> pyval \<Rightarrow> config" where
  "setattr self k v = AList.update k v self"

text \<open>Reading several attributes in a row, as a list display does: the first missing one raises.\<close>

fun getattrs :: "config \<Rightarrow> string list \<Rightarrow> error + pyval list" where
  "getattrs self [] = Inr []"
| "getattrs self (k # ks) =
     (case getattr self k of
        Inl e \<Rightarrow> Inl e
      | Inr v \<Rightarrow> (case getattrs self ks of Inl e \<Rightarrow> Inl e | Inr vs \<Rightarrow> Inr (v # vs)))"

section \<open>The parameter store\<close>

subsection \<open>\<^verbatim>\<open>update_num_iterations\<close>\<close>

text \<open>The nine attributes the loop of \<^verbatim>\<open>update_num_iterations\<close> reads, in its order.\<close>

definition counted_variables :: "string list" where
  "counted_variables =
     [''width_range'', ''height_range'', ''wh_ratio_range'',
      ''dilation_kernel'',
      ''dilation_iterations'', ''morph_kernels_type'',
      ''horizontal_max_distance'',
      ''morph_kernels_thickness'', ''vertical_max_distance'']"

text \<open>\<^verbatim>\<open>if type(variable) is not list: variable = [variable]\<close>, then \<^verbatim>\<open>len(variable)\<close>.\<close>

fun wrapped_len :: "pyval \<Rightarrow> nat" where
  "wrapped_len (PList xs) = length xs"
| "wrapped_len v = 1"

definition count_step :: "int \<Rightarrow> pyval \<Rightarrow> int" where
  "count_step n variable =
     (if n < int (wrapped_len variable) then int (wrapped_len variable) else n)"

text \<open>
  The method first stores 1, then evaluates the list display (an \<^verbatim>\<open>AttributeError\<close> leaves the
  1 behind), then runs the loop; the loop's running value is kept in a local here and
  stored once at the end.
\<close>

definition update_num_iterations :: "config \<Rightarrow> unit outcome \<times> config" where
  "update_num_iterations self =
     (let self1 = setattr self ''num_iterations'' (PInt 1) in
      case getattrs self1 counted_variables of
        Inl e \<Rightarrow> (Raise e, self1)
      | Inr variables \<Rightarrow>
          (Return (), setattr self1 ''num_iterations'' (PInt (foldl count_step 1 variables))))"

subsection \<open>\<^verbatim>\<open>__conv_to_list\<close> and \<^verbatim>\<open>variables_as_iterators\<close>\<close>

fun conv_to_list :: "pyval \<Rightarrow> int \<Rightarrow> error + pyval list" where
  "conv_to_list (PList xs) max_items =
     (if int (length xs) \<ge> max_items then Inr xs
      else (case xs of
              [] \<Rightarrow> Inl IndexError
            | x # _ \<Rightarrow> Inr (replicate (nat max_items) x)))"
| "conv_to_list x max_items = Inr (replicate (nat max_items) x)"

text \<open>The list comprehension: the first element whose conversion raises ends it.\<close>

fun conv_all :: "pyval list \<Rightarrow> int \<Rightarrow> error + pyval list list" where
  "conv_all [] max_items = Inr []"
| "conv_all (v # vs) max_items =
     (case conv_to_list v max_items of
        Inl e \<Rightarrow> Inl e
      | Inr l \<Rightarrow> (case conv_all vs max_items of Inl e \<Rightarrow> Inl e | Inr ls \<Rightarrow> Inr (l # ls)))"

definition variables_list :: "string list" where
  "variables_list =
     [''width_range'', ''height_range'', ''wh_ratio_range'',
      ''dilation_iterations'',
      ''dilation_kernel'', ''vertical_max_distance'',
      ''horizontal_max_distance'',
      ''morph_kernels_type'',
      ''morph_kernels_thickness'']"

text \<open>
  Python 3's \<^verbatim>\<open>zip\<close> returns an iterator object. Its state is the list of its argument
  iterators, each given by the items it has not yet produced. \<open>zip_next\<close> is \<^verbatim>\<open>__next__\<close>:
  it advances the argument iterators from left to right and stops at the first exhausted
  one (\<open>None\<close> is \<^verbatim>\<open>StopIteration\<close>); \<open>iterate\<close> is what \<^verbatim>\<open>list(it)\<close> or a \<^verbatim>\<open>for\<close> loop
  does: it calls \<open>zip_next\<close> until \<^verbatim>\<open>StopIteration\<close> and returns the items with the iterator
  as it is left.
\<close>

type_synonym zip_iter = "pyval list list"

fun advance :: "pyval list list \<Rightarrow> pyval list option \<times> pyval list list" where
  "advance [] = (Some [], [])"
| "advance ([] # its) = (None, [] # its)"
| "advance ((x # xs) # its) =
     (case advance its of
        (Some items, its') \<Rightarrow> (Some (x # items), xs # its')
      | (None, its') \<Rightarrow> (None, xs # its'))"

definition zip_next :: "zip_iter \<Rightarrow> pyval option \<times> zip_iter" where
  "zip_next it =
     (if it = [] then (None, it)
      else (case advance it of
              (Some items, it') \<Rightarrow> (Some (PTuple items), it')
            | (None, it') \<Rightarrow> (None, it')))"

lemma advance_Some_shorter:
  "advance its = (Some items, its') \<Longrightarrow> its \<noteq> [] \<Longrightarrow>
     sum_list (map length its') < sum_list (map length its)"
proof (induction its arbitrary: items its' rule: advance.induct)
  case 1
  then show ?case by simp
next
  case (2 its)
  then show ?case by simp
next
  case (3 x xs its)
  then show ?case
    by (cases its) (auto split: prod.splits option.splits)
qed

function iterate :: "zip_iter \<Rightarrow> pyval list \<times> zip_iter" where
  "iterate it =
     (case zip_next it of
        (None, it') \<Rightarrow> ([], it')
      | (Some item, it') \<Rightarrow> (case iterate it' of (items, it'') \<Rightarrow> (item # items, it'')))"
  by pat_completeness auto
termination
proof (relation "measure (\<lambda>it. sum_list (map length it))")
  show "wf (measure (\<lambda>it. sum_list (map length it)))" by simp
next
  fix it :: zip_iter and x :: "pyval option" and it' item
  assume "(x, it') = zip_next it" and "x = Some item"
  then have z: "zip_next it = (Some item, it')" by (metis)
  then have "it \<noteq> []" by (auto simp: zip_next_def)
  moreover from z obtain items where "advance it = (Some items, it')"
    by (auto simp: zip_next_def split: if_splits prod.splits option.splits)
  ultimately have "sum_list (map length it') < sum_list (map length it)"
    by (rule advance_Some_shorter[rotated])
  then show "(it', it) \<in> measure (\<lambda>it. sum_list (map length it))" by simp
qed

text \<open>The equation of \<open>iterate\<close> unfolds for ever; it is used by hand only.\<close>

declare iterate.simps [simp del]

definition variables_as_iterators :: "config \<Rightarrow> zip_iter outcome \<times> config" where
  "variables_as_iterators self =
     (case update_num_iterations self of
        (Raise e, self') \<Rightarrow> (Raise e, self')
      | (Return _, self') \<Rightarrow>
          (case getattrs self' variables_list of
             Inl e \<Rightarrow> (Raise e, self')
           | Inr variables \<Rightarrow>
               (case getattr self' ''num_iterations'' of
                  Inr (PInt n) \<Rightarrow>
                    (case conv_all variables n of
                       Inl e \<Rightarrow> (Raise e, self')
                     | Inr iterables \<Rightarrow> (Return iterables, self'))
                | Inr _ \<Rightarrow> (Raise TypeError, self')
                | Inl e \<Rightarrow> (Raise e, self'))))"


subsection \<open>The defaults of \<^verbatim>\<open>__init__\<close>\<close>

text \<open>The twelve assignments of \<^verbatim>\<open>__init__\<close>, in order.\<close>

definition defaults :: config where
  "defaults =
     [(''width_range'', PList [PTuple [PInt 40, PInt 50]]),
      (''height_range'', PList [PTuple [PInt 50, PInt 60]]),
      (''wh_ratio_range'', PList [PTuple [PFloat (Fin (65 / 100)), PFloat (Fin (1 / 10))]]),
      (''scaling_factors'', PList [PFloat (Fin (5 / 10))]),
      (''thickness'', PInt 2),
      (''dilation_kernel'', PList [PTuple [PInt 2, PInt 2]]),
      (''dilation_iterations'', PList [PInt 0]),
      (''morph_kernels_type'', PList [PStr ''lines'']),
      (''morph_kernels_thickness'', PList [PInt 1]),
      (''group_size_range'', PTuple [PInt 1, PInt 100]),
      (''vertical_max_distance'', PList [PInt 10]),
      (''horizontal_max_distance'', PList [PInt (40 * 2)])]"


section \<open>The auto-calibrator\<close>

text \<open>\<^verbatim>\<open>int(x)\<close> of a float truncates toward zero.\<close>

definition py_int :: "real \<Rightarrow> int" where
  "py_int x = (if 0 \<le> x then \<lfloor>x\<rfloor> else \<lceil>x\<rceil>)"

definition add_margin_to_size :: "int \<Rightarrow> real \<Rightarrow> int \<Rightarrow> int" where
  "add_margin_to_size sz margin_percent margin_px_limit =
     (let calc_margin = py_int (real_of_int sz * margin_percent)
      in if calc_margin < margin_px_limit then calc_margin else margin_px_limit)"

text \<open>The builtins \<^verbatim>\<open>min\<close> and \<^verbatim>\<open>max\<close> over a sequence raise \<^verbatim>\<open>ValueError\<close> on an empty one.\<close>

definition py_min :: "int list \<Rightarrow> error + int" where
  "py_min xs = (case xs of [] \<Rightarrow> Inl ValueError | x # r \<Rightarrow> Inr (fold min r x))"

definition py_max :: "int list \<Rightarrow> error + int" where
  "py_max xs = (case xs of [] \<Rightarrow> Inl ValueError | x # r \<Rightarrow> Inr (fold max r x))"

text \<open>
  \<^verbatim>\<open>box_sizes[clusters == i]\<close>: the rows whose label is \<open>i\<close>; numpy raises \<^verbatim>\<open>IndexError\<close> when
  the boolean mask and the array differ in length.
\<close>

definition select_group :: "(int \<times> int) list \<Rightarrow> int list \<Rightarrow> int \<Rightarrow> error + (int \<times> int) list" where
  "select_group box_sizes clusters i =
     (if length clusters \<noteq> length box_sizes then Inl IndexError
      else Inr (map fst (filter (\<lambda>(b, l). l = i) (zip box_sizes clusters))))"

text \<open>
  Division of two numpy integers gives a float and never raises: a zero divisor gives
  \<open>inf\<close>, \<open>-inf\<close> or \<open>nan\<close> (with a warning).
\<close>

definition np_true_divide :: "int \<Rightarrow> int \<Rightarrow> pyfloat" where
  "np_true_divide a b =
     (if b = 0 then (if 0 < a then PosInf else if a < 0 then NegInf else NaN)
      else Fin (real_of_int a / real_of_int b))"

fun float_less :: "pyfloat \<Rightarrow> pyfloat \<Rightarrow> bool" where
  "float_less NaN y = False"
| "float_less x NaN = False"
| "float_less (Fin x) (Fin y) = (x < y)"
| "float_less x NegInf = False"
| "float_less NegInf y = True"
| "float_less PosInf y = False"
| "float_less x PosInf = True"

text \<open>\<^verbatim>\<open>sorted\<close> of a pair: the two are swapped exactly when the second is less than the first.\<close>

definition sorted_pair :: "pyfloat \<Rightarrow> pyfloat \<Rightarrow> pyfloat list" where
  "sorted_pair a b = (if float_less b a then [b, a] else [a, b])"

text \<open>The body of the \<^verbatim>\<open>for\<close> loop of \<^verbatim>\<open>autoconfigure\<close> from the group on: one row of \<^verbatim>\<open>hw_grouped\<close>.\<close>

definition group_row :: "real \<Rightarrow> int \<Rightarrow> bool \<Rightarrow> int \<Rightarrow> (int \<times> int) list \<Rightarrow> error + pyval list" where
  "group_row margin_percent margin_px_limit use_rect_kernel_for_small rect_kernel_threshold grp =
     (case py_min (map fst grp) of Inl e \<Rightarrow> Inl e | Inr minh \<Rightarrow>
      case py_max (map fst grp) of Inl e \<Rightarrow> Inl e | Inr maxh \<Rightarrow>
      case py_min (map snd grp) of Inl e \<Rightarrow> Inl e | Inr minw \<Rightarrow>
      case py_max (map snd grp) of Inl e \<Rightarrow> Inl e | Inr maxw \<Rightarrow>
      let calc_minh = minh - add_margin_to_size minh margin_percent margin_px_limit;
          calc_maxh = maxh + add_margin_to_size maxh margin_percent margin_px_limit;
          calc_minw = minw - add_margin_to_size minw margin_percent margin_px_limit;
          calc_maxw = maxw + add_margin_to_size maxw margin_percent margin_px_limit
      in Inr [PTuple [PInt calc_minh, PInt calc_maxh], PTuple [PInt calc_minw, PInt calc_maxw],
              PList (map PFloat (sorted_pair (np_true_divide calc_minw calc_minh)
                                             (np_true_divide calc_maxw calc_maxh))),
              PStr (if use_rect_kernel_for_small
                       \<and> maxh \<le> rect_kernel_threshold
                       \<and> maxw \<le> rect_kernel_threshold
                    then ''rectangles''
                    else ''lines'')])"

text \<open>The loop over the labels: the first label whose body raises ends it.\<close>

fun hw_rows ::
  "real \<Rightarrow> int \<Rightarrow> bool \<Rightarrow> int \<Rightarrow> (int \<times> int) list \<Rightarrow> int list \<Rightarrow> int list \<Rightarrow> error + pyval list list" where
  "hw_rows mp lm ur thr box_sizes clusters [] = Inr []"
| "hw_rows mp lm ur thr box_sizes clusters (i # labels) =
     (case select_group box_sizes clusters i of Inl e \<Rightarrow> Inl e | Inr grp \<Rightarrow>
      case group_row mp lm ur thr grp of Inl e \<Rightarrow> Inl e | Inr row \<Rightarrow>
      case hw_rows mp lm ur thr box_sizes clusters labels of Inl e \<Rightarrow> Inl e | Inr rows \<Rightarrow>
      Inr (row # rows))"

text \<open>
  \<^verbatim>\<open>np.asarray(hw_grouped)\<close> is taken as the numpy that the code was written for builds it:
  from rows that mix pairs and a string, an object array with one row per group and four
  columns, whose cells are the rows' own objects. \<^verbatim>\<open>hw_grouped[:, j].tolist()\<close> is then the
  list of the cells of column \<open>j\<close>.
\<close>

definition column :: "nat \<Rightarrow> pyval list list \<Rightarrow> pyval" where
  "column j hw_grouped = PList (map (\<lambda>row. row ! j) hw_grouped)"

text \<open>
  The clustering is \<^verbatim>\<open>sklearn\<close>'s: \<open>fit_predict\<close> stands for
  \<^verbatim>\<open>cluster.DBSCAN(eps=epsilon, min_samples=1).fit_predict\<close> and is a parameter. Whatever
  raises before line 128 leaves the object untouched; \<^verbatim>\<open>hw_grouped[:, 1]\<close> raises
  \<^verbatim>\<open>IndexError\<close> on the one-dimensional array that an empty list of rows becomes.
\<close>

definition autoconfigure ::
  "(real \<Rightarrow> (int \<times> int) list \<Rightarrow> error + int list) \<Rightarrow> config \<Rightarrow> (int \<times> int) list \<Rightarrow>
     real \<Rightarrow> real \<Rightarrow> int \<Rightarrow> bool \<Rightarrow> int \<Rightarrow> unit outcome \<times> config" where
  "autoconfigure fit_predict self box_sizes epsilon margin_percent margin_px_limit
       use_rect_kernel_for_small rect_kernel_threshold =
     (case fit_predict epsilon box_sizes of Inl e \<Rightarrow> (Raise e, self) | Inr clusters \<Rightarrow>
      case py_max clusters of Inl e \<Rightarrow> (Raise e, self) | Inr m \<Rightarrow>
      case hw_rows margin_percent margin_px_limit use_rect_kernel_for_small rect_kernel_threshold
             box_sizes clusters (map int [0 ..< nat (m + 1)]) of
        Inl e \<Rightarrow> (Raise e, self)
      | Inr hw_grouped \<Rightarrow>
          if hw_grouped = [] then (Raise IndexError, self)
          else
            let self1 = setattr self ''width_range'' (column 1 hw_grouped);
                self2 = setattr self1 ''height_range'' (column 0 hw_grouped);
                self3 = setattr self2 ''wh_ratio_range'' (column 2 hw_grouped);
                self4 = setattr self3 ''morph_kernels_type'' (column 3 hw_grouped)
            in update_num_iterations self4)"

section \<open>The persistence adapter\<close>




text \<open>The \<^verbatim>\<open>for\<close> loop of \<^verbatim>\<open>load_yaml\<close>: \<^verbatim>\<open>setattr\<close> raises \<^verbatim>\<open>TypeError\<close> on a key that is no string.\<close>

fun load_items :: "(pyval \<times> pyval) list \<Rightarrow> config \<Rightarrow> unit outcome \<times> config" where
  "load_items [] self = (Return (), self)"
| "load_items ((PStr key, v) # rest) self = load_items rest (setattr self key v)"
| "load_items ((key, v) # rest) self = (Raise TypeError, self)"

definition load_yaml ::
  "('doc \<Rightarrow> error + pyval) \<Rightarrow> config \<Rightarrow> string \<Rightarrow> bool \<Rightarrow> (string \<rightharpoonup> 'doc) \<Rightarrow>
     unit outcome \<times> config" where
  "load_yaml yaml_load self path suppress_warnings fs =
     (case fs path of
        None \<Rightarrow> (Raise OSError, self)
      | Some content \<Rightarrow>
          (case yaml_load content of
             Inl e \<Rightarrow> (Raise e, self)
           | Inr (PDict items) \<Rightarrow>
               (case load_items items self of
                  (Raise e, self') \<Rightarrow> (Raise e, self')
                | (Return _, self') \<Rightarrow> update_num_iterations self')
           | Inr _ \<Rightarrow> (Raise AttributeError, self)))"

text \<open>\<^verbatim>\<open>__init__\<close>: \<^verbatim>\<open>if yaml_path:\<close> is false for \<^verbatim>\<open>None\<close> and for the empty string.\<close>

definition init ::
  "('doc \<Rightarrow> error + pyval) \<Rightarrow> string option \<Rightarrow> (string \<rightharpoonup> 'doc) \<Rightarrow> unit outcome \<times> config" where
  "init yaml_load yaml_path fs =
     (case (case yaml_path of
              None \<Rightarrow> (Return (), defaults)
            | Some path \<Rightarrow>
                if path = [] then (Return (), defaults)
                else load_yaml yaml_load defaults path False fs) of
        (Raise e, self) \<Rightarrow> (Raise e, self)
      | (Return _, self) \<Rightarrow> update_num_iterations self)"


section \<open>Properties\<close>

subsection \<open>Attribute reads and writes\<close>

lemma getattr_setattr: "getattr (setattr self k v) k' = (if k' = k then Inr v else getattr self k')"
  by (simp add: getattr_def setattr_def update_conv')

subsection \<open>The parameter store\<close>

lemma getattrs_eq:
  "getattrs self ks =
     (if \<forall>k\<in>set ks. map_of self k \<noteq> None then Inr (map (\<lambda>k. the (map_of self k)) ks)
      else Inl AttributeError)"
  by (induction ks) (auto simp: getattr_def split: option.splits)

lemma getattrs_setattr_other:
  "k \<notin> set ks \<Longrightarrow> getattrs (setattr self k v) ks = getattrs self ks"
  by (induction ks) (auto simp: getattr_setattr split: sum.splits)

lemma foldl_count_step_ge: "n \<le> foldl count_step n vs"
proof (induction vs arbitrary: n)
  case Nil
  then show ?case by simp
next
  case (Cons a vs)
  have "n \<le> count_step n a" by (simp add: count_step_def)
  also have "\<dots> \<le> foldl count_step (count_step n a) vs" by (rule Cons.IH)
  finally show ?case by simp
qed

lemma foldl_count_step_upper:
  "v \<in> set vs \<Longrightarrow> int (wrapped_len v) \<le> foldl count_step n vs"
proof (induction vs arbitrary: n)
  case Nil
  then show ?case by simp
next
  case (Cons a vs)
  show ?case
  proof (cases "v = a")
    case True
    have "int (wrapped_len a) \<le> count_step n a" by (simp add: count_step_def)
    also have "\<dots> \<le> foldl count_step (count_step n a) vs" by (rule foldl_count_step_ge)
    finally show ?thesis using True by simp
  next
    case False
    with Cons show ?thesis by simp
  qed
qed


lemma advance_rect:
  "\<forall>l\<in>set its. length l = Suc n \<Longrightarrow> advance its = (Some (map hd its), map tl its)"
proof (induction its)
  case Nil
  then show ?case by simp
next
  case (Cons l its)
  then obtain x xs where "l = x # xs" by (cases l) auto
  with Cons show ?case by simp
qed

lemma advance_empty_head: "advance ([] # its) = (None, [] # its)"
  by simp

lemma iterate_rect:
  "its \<noteq> [] \<Longrightarrow> \<forall>l\<in>set its. length l = n \<Longrightarrow>
   iterate its = (map (\<lambda>i. PTuple (map (\<lambda>l. l ! i) its)) [0..<n], map (\<lambda>_. []) its)"
proof (induction n arbitrary: its)
  case 0
  then obtain l ls where its: "its = l # ls" by (cases its) auto
  with 0 have "l = []" by simp
  with its have "zip_next its = (None, its)" by (simp add: zip_next_def)
  moreover from 0 have "map (\<lambda>_. []) its = its" by (induction its) auto
  ultimately show ?case by (simp add: iterate.simps)
next
  case (Suc n)
  from Suc.prems have adv: "advance its = (Some (map hd its), map tl its)"
    using advance_rect[of its n] by blast
  with Suc.prems have zn: "zip_next its = (Some (PTuple (map hd its)), map tl its)"
    by (simp add: zip_next_def)
  have "map tl its \<noteq> []" using Suc.prems by simp
  moreover have "\<forall>l\<in>set (map tl its). length l = n" using Suc.prems by simp
  ultimately have IH: "iterate (map tl its) =
      (map (\<lambda>i. PTuple (map (\<lambda>l. l ! i) (map tl its))) [0..<n], map (\<lambda>_. []) (map tl its))"
    by (rule Suc.IH)
  have ne: "\<And>l. l \<in> set its \<Longrightarrow> l \<noteq> []"
    using Suc.prems by auto
  have hd0: "map hd its = map (\<lambda>l. l ! 0) its"
    using ne by (simp add: hd_conv_nth)
  have tli: "tl l ! i = l ! Suc i" if "l \<in> set its" for l i
    using ne[OF that] by (cases l) simp_all
  then have tls: "\<And>i. map (\<lambda>l. l ! i) (map tl its) = map (\<lambda>l. l ! Suc i) its"
    by simp
  have "[0..<Suc n] = 0 # map Suc [0..<n]"
    by (simp add: upt_conv_Cons map_Suc_upt del: upt_Suc)
  then show ?case
    by (simp add: iterate.simps[of its] zn IH hd0 tli o_def del: upt_Suc)
qed

lemma update_num_iterations_eq:
  "update_num_iterations self =
     (case getattrs self counted_variables of
        Inl e \<Rightarrow> (Raise e, setattr self ''num_iterations'' (PInt 1))
      | Inr variables \<Rightarrow>
          (Return (), setattr self ''num_iterations'' (PInt (foldl count_step 1 variables))))"
proof -
  have "''num_iterations'' \<notin> set counted_variables"
    by (simp add: counted_variables_def)
  then have "getattrs (setattr self ''num_iterations'' (PInt 1)) counted_variables
      = getattrs self counted_variables"
    by (rule getattrs_setattr_other)
  then show ?thesis
    by (simp add: update_num_iterations_def Let_def setattr_def split: sum.splits)
qed

text \<open>
  C9. A configuration constructed without a file (no load, no calibration) has
  \<^verbatim>\<open>num_iterations\<close> equal to 1.
\<close>

theorem default_num_iterations:
  "\<exists>self. init yaml_load None fs = (Return (), self) \<and> getattr self ''num_iterations'' = Inr (PInt 1)"
  by (simp add: init_def update_num_iterations_def defaults_def setattr_def getattr_def
      counted_variables_def count_step_def)

lemma set_variables_list: "set variables_list = set counted_variables"
  by (auto simp: variables_list_def counted_variables_def)

lemma getattrs_variables_list:
  assumes "getattrs self counted_variables = Inr variables"
  shows "\<exists>fields. getattrs self variables_list = Inr fields \<and> set fields = set variables"
proof -
  from assms have all: "\<forall>k\<in>set counted_variables. map_of self k \<noteq> None"
    and vs: "variables = map (\<lambda>k. the (map_of self k)) counted_variables"
    by (auto simp: getattrs_eq split: if_splits)
  from all have "getattrs self variables_list = Inr (map (\<lambda>k. the (map_of self k)) variables_list)"
    by (simp add: getattrs_eq set_variables_list)
  moreover have "set (map (\<lambda>k. the (map_of self k)) variables_list) = set variables"
    by (simp add: vs set_variables_list)
  ultimately show ?thesis by blast
qed

lemma conv_all_Inr:
  "conv_all vs n = Inr ls \<Longrightarrow> list_all2 (\<lambda>v l. conv_to_list v n = Inr l) vs ls"
  by (induction vs arbitrary: ls) (auto split: sum.splits)

lemma conv_all_Inl:
  "conv_all vs n = Inl e \<Longrightarrow> \<exists>v\<in>set vs. conv_to_list v n = Inl e"
  by (induction vs) (auto split: sum.splits)

lemma conv_to_list_Inl: "conv_to_list v n = Inl e \<Longrightarrow> v = PList [] \<and> e = IndexError"
  by (cases v) (auto split: if_splits list.splits)

lemma conv_to_list_empty: "1 \<le> n \<Longrightarrow> conv_to_list (PList []) n = Inl IndexError"
  by simp

lemma conv_to_list_total:
  "v \<noteq> PList [] \<Longrightarrow> \<exists>l. conv_to_list v n = Inr l"
  by (cases v) (auto split: list.splits)

lemma conv_all_total:
  "PList [] \<notin> set vs \<Longrightarrow> \<exists>ls. conv_all vs n = Inr ls"
proof (induction vs)
  case Nil
  then show ?case by simp
next
  case (Cons v vs)
  then have "v \<noteq> PList []" by auto
  then obtain l where "conv_to_list v n = Inr l" using conv_to_list_total by blast
  moreover from Cons obtain ls where "conv_all vs n = Inr ls" by auto
  ultimately show ?case by simp
qed

lemma conv_all_empty_fails:
  "1 \<le> n \<Longrightarrow> PList [] \<in> set vs \<Longrightarrow> conv_all vs n = Inl IndexError"
proof (induction vs)
  case Nil
  then show ?case by simp
next
  case (Cons v vs)
  show ?case
  proof (cases "conv_to_list v n")
    case (Inl e)
    then show ?thesis using conv_to_list_Inl[OF Inl] by simp
  next
    case (Inr l)
    with Cons.prems have "v \<noteq> PList []" by auto
    with Cons have "conv_all vs n = Inl IndexError" by auto
    with Inr show ?thesis by simp
  qed
qed

lemma conv_to_list_length:
  "conv_to_list v n = Inr l \<Longrightarrow> int (wrapped_len v) \<le> n \<Longrightarrow> 0 \<le> n \<Longrightarrow> int (length l) = n"
  by (cases v) (auto split: if_splits list.splits)

lemma getattrs_length: "getattrs self ks = Inr vs \<Longrightarrow> length vs = length ks"
  by (auto simp: getattrs_eq split: if_splits)

lemma variables_as_iterators_eq:
  assumes "getattrs self counted_variables = Inr variables"
  shows "\<exists>fields. getattrs self variables_list = Inr fields \<and> set fields = set variables \<and>
           variables_as_iterators self =
             (case conv_all fields (foldl count_step 1 variables) of
                Inl e \<Rightarrow> (Raise e, setattr self ''num_iterations'' (PInt (foldl count_step 1 variables)))
              | Inr iterables \<Rightarrow>
                  (Return iterables, setattr self ''num_iterations'' (PInt (foldl count_step 1 variables))))"
proof -
  let ?n = "foldl count_step 1 variables"
  let ?self' = "setattr self ''num_iterations'' (PInt ?n)"
  from assms obtain fields where f: "getattrs self variables_list = Inr fields"
    and sf: "set fields = set variables"
    using getattrs_variables_list by blast
  have u: "update_num_iterations self = (Return (), ?self')"
    by (simp add: update_num_iterations_eq assms)
  have "''num_iterations'' \<notin> set variables_list"
    by (simp add: variables_list_def)
  then have f': "getattrs ?self' variables_list = Inr fields"
    by (simp add: getattrs_setattr_other f)
  have n: "getattr ?self' ''num_iterations'' = Inr (PInt ?n)"
    by (simp add: getattr_setattr)
  have "variables_as_iterators self =
      (case conv_all fields ?n of Inl e \<Rightarrow> (Raise e, ?self') | Inr iterables \<Rightarrow> (Return iterables, ?self'))"
    unfolding variables_as_iterators_def u by (simp add: f' n)
  with f sf show ?thesis by blast
qed

lemma variables_as_iterators_Return:
  assumes "getattrs self counted_variables = Inr variables" and "PList [] \<notin> set variables"
  shows "\<exists>fields iterables.
           getattrs self variables_list = Inr fields \<and>
           variables_as_iterators self =
             (Return iterables, setattr self ''num_iterations'' (PInt (foldl count_step 1 variables))) \<and>
           list_all2 (\<lambda>v l. conv_to_list v (foldl count_step 1 variables) = Inr l) fields iterables \<and>
           iterables \<noteq> [] \<and>
           (\<forall>l\<in>set iterables. length l = nat (foldl count_step 1 variables))"
proof -
  let ?n = "foldl count_step 1 variables"
  from variables_as_iterators_eq[OF assms(1)] obtain fields where
    f: "getattrs self variables_list = Inr fields" and sf: "set fields = set variables" and
    v: "variables_as_iterators self =
         (case conv_all fields ?n of
            Inl e \<Rightarrow> (Raise e, setattr self ''num_iterations'' (PInt ?n))
          | Inr iterables \<Rightarrow> (Return iterables, setattr self ''num_iterations'' (PInt ?n)))"
    by blast
  from assms(2) sf obtain iterables where c: "conv_all fields ?n = Inr iterables"
    using conv_all_total[of fields ?n] by auto
  then have la: "list_all2 (\<lambda>v l. conv_to_list v ?n = Inr l) fields iterables"
    by (rule conv_all_Inr)
  have n1: "1 \<le> ?n" by (rule foldl_count_step_ge)
  have "length l = nat ?n" if "l \<in> set iterables" for l
  proof -
    from that obtain i where i: "i < length iterables" and l: "l = iterables ! i"
      by (auto simp: in_set_conv_nth)
    define v where "v = fields ! i"
    from la i l have cv: "conv_to_list v ?n = Inr l"
      unfolding v_def using list_all2_nthD2[OF la i] by simp
    from la i have "v \<in> set fields"
      unfolding v_def by (simp add: list_all2_lengthD)
    then have "int (wrapped_len v) \<le> ?n"
      using sf foldl_count_step_upper by blast
    with cv n1 have "int (length l) = ?n"
      by (intro conv_to_list_length) auto
    then show ?thesis by simp
  qed
  moreover have "length fields = 9"
    using getattrs_length[OF f] by (simp add: variables_list_def)
  with la have "iterables \<noteq> []"
    by (auto simp: list_all2_conv_all_nth)
  ultimately show ?thesis using f v c la by auto
qed


lemma variables_as_iterators_ReturnD:
  assumes "variables_as_iterators self = (Return it, self')"
  shows "\<exists>variables fields.
           getattrs self counted_variables = Inr variables \<and> PList [] \<notin> set variables \<and>
           getattrs self variables_list = Inr fields \<and>
           self' = setattr self ''num_iterations'' (PInt (foldl count_step 1 variables)) \<and>
           list_all2 (\<lambda>v l. conv_to_list v (foldl count_step 1 variables) = Inr l) fields it \<and>
           it \<noteq> [] \<and>
           (\<forall>l\<in>set it. length l = nat (foldl count_step 1 variables))"
proof (cases "getattrs self counted_variables")
  case (Inl e)
  then have "variables_as_iterators self = (Raise e, setattr self ''num_iterations'' (PInt 1))"
    by (simp add: variables_as_iterators_def update_num_iterations_eq)
  with assms show ?thesis by simp
next
  case (Inr variables)
  let ?n = "foldl count_step 1 variables"
  from variables_as_iterators_eq[OF Inr] obtain fields where
    f: "getattrs self variables_list = Inr fields" and sf: "set fields = set variables" and
    v: "variables_as_iterators self =
         (case conv_all fields ?n of
            Inl e \<Rightarrow> (Raise e, setattr self ''num_iterations'' (PInt ?n))
          | Inr iterables \<Rightarrow> (Return iterables, setattr self ''num_iterations'' (PInt ?n)))"
    by blast
  have n1: "1 \<le> ?n" by (rule foldl_count_step_ge)
  have ne: "PList [] \<notin> set variables"
  proof
    assume "PList [] \<in> set variables"
    with sf n1 have "conv_all fields ?n = Inl IndexError"
      by (simp add: conv_all_empty_fails)
    with v assms show False by simp
  qed
  from variables_as_iterators_Return[OF Inr ne] f assms Inr ne show ?thesis
    by auto
qed



text \<open>
  C10. With the nine tracked attributes present, \<^verbatim>\<open>variables_as_iterators\<close> raises
  \<^verbatim>\<open>IndexError\<close> exactly when one of them is an empty list (\<^verbatim>\<open>num_iterations\<close> is at least 1,
  so the empty list is shorter and \<^verbatim>\<open>x[0]\<close> is read), and it returns exactly when none is.
\<close>

theorem empty_list_expansion_fails:
  assumes "getattrs self counted_variables = Inr variables"
  shows "(PList [] \<in> set variables) =
            (\<exists>self'. variables_as_iterators self = (Raise IndexError, self')) \<and>
         (PList [] \<notin> set variables) =
            (\<exists>it self'. variables_as_iterators self = (Return it, self'))"
proof (cases "PList [] \<in> set variables")
  case True
  let ?n = "foldl count_step 1 variables"
  from variables_as_iterators_eq[OF assms] obtain fields where
    sf: "set fields = set variables" and
    v: "variables_as_iterators self =
         (case conv_all fields ?n of
            Inl e \<Rightarrow> (Raise e, setattr self ''num_iterations'' (PInt ?n))
          | Inr iterables \<Rightarrow> (Return iterables, setattr self ''num_iterations'' (PInt ?n)))"
    by blast
  have "1 \<le> ?n" by (rule foldl_count_step_ge)
  with True sf have "conv_all fields ?n = Inl IndexError"
    by (simp add: conv_all_empty_fails)
  with v have "variables_as_iterators self =
      (Raise IndexError, setattr self ''num_iterations'' (PInt ?n))"
    by simp
  with True show ?thesis by simp
next
  case False
  from variables_as_iterators_Return[OF assms False] obtain it self' where
    "variables_as_iterators self = (Return it, self')"
    by blast
  with False show ?thesis by simp
qed

theorem empty_list_expansion_fails_witness:
  "getattrs (setattr defaults ''dilation_iterations'' (PList [])) counted_variables =
     Inr [PList [PTuple [PInt 40, PInt 50]], PList [PTuple [PInt 50, PInt 60]],
          PList [PTuple [PFloat (Fin (65 / 100)), PFloat (Fin (1 / 10))]],
          PList [PTuple [PInt 2, PInt 2]], PList [], PList [PStr ''lines''],
          PList [PInt 80], PList [PInt 1], PList [PInt 10]] \<and>
   PList [] \<in> set [PList [PTuple [PInt 40, PInt 50]], PList [PTuple [PInt 50, PInt 60]],
          PList [PTuple [PFloat (Fin (65 / 100)), PFloat (Fin (1 / 10))]],
          PList [PTuple [PInt 2, PInt 2]], PList [], PList [PStr ''lines''],
          PList [PInt 80], PList [PInt 1], PList [PInt 10]] \<and>
   (\<exists>self'. variables_as_iterators (setattr defaults ''dilation_iterations'' (PList [])) =
      (Raise IndexError, self')) \<and>
   \<not> (\<exists>it self'. variables_as_iterators (setattr defaults ''dilation_iterations'' (PList [])) =
      (Return it, self'))"
proof -
  have g: "getattrs (setattr defaults ''dilation_iterations'' (PList [])) counted_variables =
     Inr [PList [PTuple [PInt 40, PInt 50]], PList [PTuple [PInt 50, PInt 60]],
          PList [PTuple [PFloat (Fin (65 / 100)), PFloat (Fin (1 / 10))]],
          PList [PTuple [PInt 2, PInt 2]], PList [], PList [PStr ''lines''],
          PList [PInt 80], PList [PInt 1], PList [PInt 10]]"
    by (simp add: defaults_def counted_variables_def getattr_def setattr_def)
  have e: "PList [] \<in> set [PList [PTuple [PInt 40, PInt 50]], PList [PTuple [PInt 50, PInt 60]],
          PList [PTuple [PFloat (Fin (65 / 100)), PFloat (Fin (1 / 10))]],
          PList [PTuple [PInt 2, PInt 2]], PList [], PList [PStr ''lines''],
          PList [PInt 80], PList [PInt 1], PList [PInt 10]]"
    by simp
  from empty_list_expansion_fails[OF g] e
  have "(\<exists>self'. variables_as_iterators (setattr defaults ''dilation_iterations'' (PList [])) =
      (Raise IndexError, self')) \<and>
   \<not> (\<exists>it self'. variables_as_iterators (setattr defaults ''dilation_iterations'' (PList [])) =
      (Return it, self'))"
    by blast
  with g e show ?thesis by blast
qed





lemma conv_to_list_nth:
  "conv_to_list v n = Inr l \<Longrightarrow> i < length l \<Longrightarrow>
     l ! i = (case v of PList xs \<Rightarrow> if int (length xs) < n then xs ! 0 else xs ! i | w \<Rightarrow> w)"
  by (cases v) (auto split: if_splits list.splits)

lemma conv_to_list_scalar:
  "(\<forall>xs. v \<noteq> PList xs) \<Longrightarrow> conv_to_list v n = Inr (replicate (nat n) v)"
  by (cases v) auto

lemma conv_to_list_short:
  "xs \<noteq> [] \<Longrightarrow> int (length xs) < n \<Longrightarrow>
     conv_to_list (PList xs) n = Inr (replicate (nat n) (hd xs))"
  by (cases xs) auto

lemma broadcast_nth:
  assumes "variables_as_iterators self = (Return it, self')" and "iterate it = (tuples, it')"
    and "getattrs self variables_list = Inr fields" and "i < length tuples" and "j < length fields"
  shows "\<exists>comps. tuples ! i = PTuple comps \<and> length comps = length fields \<and>
           comps ! j = (case fields ! j of
                          PList xs \<Rightarrow> if length xs < length tuples then xs ! 0 else xs ! i
                        | v \<Rightarrow> v)"
proof -
  from variables_as_iterators_ReturnD[OF assms(1)] assms(3) obtain variables where
    la: "list_all2 (\<lambda>v l. conv_to_list v (foldl count_step 1 variables) = Inr l) fields it" and
    ne: "it \<noteq> []" and len: "\<forall>l\<in>set it. length l = nat (foldl count_step 1 variables)"
    by auto
  let ?n = "foldl count_step 1 variables"
  have n1: "1 \<le> ?n" by (rule foldl_count_step_ge)
  from iterate_rect[OF ne len] assms(2)
  have t: "tuples = map (\<lambda>i. PTuple (map (\<lambda>l. l ! i) it)) [0..<nat ?n]"
    by simp
  then have lt: "length tuples = nat ?n" by simp
  with assms(4) have i: "i < nat ?n" by simp
  have lf: "length fields = length it" by (rule list_all2_lengthD[OF la])
  with assms(5) have j: "j < length it" by simp
  have c: "conv_to_list (fields ! j) ?n = Inr (it ! j)"
    by (rule list_all2_nthD2[OF la j])
  have "i < length (it ! j)" using len j i by simp
  from conv_to_list_nth[OF c this]
  have "it ! j ! i = (case fields ! j of
                          PList xs \<Rightarrow> if int (length xs) < ?n then xs ! 0 else xs ! i
                        | v \<Rightarrow> v)" .
  moreover have "int (length xs) < ?n \<longleftrightarrow> length xs < length tuples" for xs :: "pyval list"
    using lt n1 by auto
  ultimately have "it ! j ! i = (case fields ! j of
                          PList xs \<Rightarrow> if length xs < length tuples then xs ! 0 else xs ! i
                        | v \<Rightarrow> v)"
    by (simp split: pyval.splits)
  moreover have "tuples ! i = PTuple (map (\<lambda>l. l ! i) it)"
    using t i by simp
  ultimately show ?thesis using j lf by auto
qed

text \<open>
  C3. The broadcast policy of \<^verbatim>\<open>__conv_to_list\<close>: a value that is no list is replicated
  \<open>n\<close> times; a non-empty list shorter than \<open>n\<close> gives its first element \<open>n\<close> times; a list
  of length at least \<open>n\<close> is returned as it is, without an error. Hence, when
  \<^verbatim>\<open>variables_as_iterators\<close> returns, component \<open>j\<close> of tuple \<open>i\<close> is the attribute itself, the
  first element of a shorter list, or element \<open>i\<close> of a list of full length. With
  \<^verbatim>\<open>width_range = [(40, 50)]\<close> and \<^verbatim>\<open>height_range = [(50, 60), (60, 70)]\<close> the two tuples carry
  \<open>(40, 50)\<close> twice and \<open>(50, 60)\<close> then \<open>(60, 70)\<close>.
\<close>

theorem broadcast_policy:
  "((\<forall>zs. v \<noteq> PList zs) \<longrightarrow> conv_to_list v n = Inr (replicate (nat n) v)) \<and>
   (xs \<noteq> [] \<and> int (length xs) < n \<longrightarrow>
      conv_to_list (PList xs) n = Inr (replicate (nat n) (hd xs))) \<and>
   (n \<le> int (length ys) \<longrightarrow> conv_to_list (PList ys) n = Inr ys) \<and>
   (variables_as_iterators self = (Return it, self') \<and> iterate it = (tuples, it') \<and>
    getattrs self variables_list = Inr fields \<and> i < length tuples \<and> j < length fields \<longrightarrow>
      (\<exists>comps. tuples ! i = PTuple comps \<and> length comps = length fields \<and>
         comps ! j = (case fields ! j of
                        PList zs \<Rightarrow> if length zs < length tuples then zs ! 0 else zs ! i
                      | w \<Rightarrow> w))) \<and>
   (\<exists>self' it'.
      variables_as_iterators
        (setattr defaults ''height_range'' (PList [PTuple [PInt 50, PInt 60], PTuple [PInt 60, PInt 70]]))
        = (Return [[PTuple [PInt 40, PInt 50], PTuple [PInt 40, PInt 50]],
                   [PTuple [PInt 50, PInt 60], PTuple [PInt 60, PInt 70]],
                   [PTuple [PFloat (Fin (65 / 100)), PFloat (Fin (1 / 10))],
                    PTuple [PFloat (Fin (65 / 100)), PFloat (Fin (1 / 10))]],
                   [PInt 0, PInt 0], [PTuple [PInt 2, PInt 2], PTuple [PInt 2, PInt 2]],
                   [PInt 10, PInt 10], [PInt 80, PInt 80],
                   [PStr ''lines'', PStr ''lines''], [PInt 1, PInt 1]], self') \<and>
      getattr self' ''num_iterations'' = Inr (PInt 2) \<and>
      iterate [[PTuple [PInt 40, PInt 50], PTuple [PInt 40, PInt 50]],
               [PTuple [PInt 50, PInt 60], PTuple [PInt 60, PInt 70]],
               [PTuple [PFloat (Fin (65 / 100)), PFloat (Fin (1 / 10))],
                PTuple [PFloat (Fin (65 / 100)), PFloat (Fin (1 / 10))]],
               [PInt 0, PInt 0], [PTuple [PInt 2, PInt 2], PTuple [PInt 2, PInt 2]],
               [PInt 10, PInt 10], [PInt 80, PInt 80],
               [PStr ''lines'', PStr ''lines''], [PInt 1, PInt 1]]
        = ([PTuple [PTuple [PInt 40, PInt 50], PTuple [PInt 50, PInt 60],
                    PTuple [PFloat (Fin (65 / 100)), PFloat (Fin (1 / 10))],
                    PInt 0, PTuple [PInt 2, PInt 2], PInt 10, PInt 80, PStr ''lines'', PInt 1],
            PTuple [PTuple [PInt 40, PInt 50], PTuple [PInt 60, PInt 70],
                    PTuple [PFloat (Fin (65 / 100)), PFloat (Fin (1 / 10))],
                    PInt 0, PTuple [PInt 2, PInt 2], PInt 10, PInt 80, PStr ''lines'', PInt 1]],
           it'))"
proof (intro conjI impI)
  assume "\<forall>zs. v \<noteq> PList zs"
  then show "conv_to_list v n = Inr (replicate (nat n) v)"
    by (rule conv_to_list_scalar)
next
  assume "xs \<noteq> [] \<and> int (length xs) < n"
  then show "conv_to_list (PList xs) n = Inr (replicate (nat n) (hd xs))"
    using conv_to_list_short by blast
next
  assume "n \<le> int (length ys)"
  then show "conv_to_list (PList ys) n = Inr ys"
    by simp
next
  assume "variables_as_iterators self = (Return it, self') \<and> iterate it = (tuples, it') \<and>
    getattrs self variables_list = Inr fields \<and> i < length tuples \<and> j < length fields"
  then show "\<exists>comps. tuples ! i = PTuple comps \<and> length comps = length fields \<and>
         comps ! j = (case fields ! j of
                        PList zs \<Rightarrow> if length zs < length tuples then zs ! 0 else zs ! i
                      | w \<Rightarrow> w)"
    using broadcast_nth by blast
next
  show "\<exists>self' it'.
      variables_as_iterators
        (setattr defaults ''height_range'' (PList [PTuple [PInt 50, PInt 60], PTuple [PInt 60, PInt 70]]))
        = (Return [[PTuple [PInt 40, PInt 50], PTuple [PInt 40, PInt 50]],
                   [PTuple [PInt 50, PInt 60], PTuple [PInt 60, PInt 70]],
                   [PTuple [PFloat (Fin (65 / 100)), PFloat (Fin (1 / 10))],
                    PTuple [PFloat (Fin (65 / 100)), PFloat (Fin (1 / 10))]],
                   [PInt 0, PInt 0], [PTuple [PInt 2, PInt 2], PTuple [PInt 2, PInt 2]],
                   [PInt 10, PInt 10], [PInt 80, PInt 80],
                   [PStr ''lines'', PStr ''lines''], [PInt 1, PInt 1]], self') \<and>
      getattr self' ''num_iterations'' = Inr (PInt 2) \<and>
      iterate [[PTuple [PInt 40, PInt 50], PTuple [PInt 40, PInt 50]],
               [PTuple [PInt 50, PInt 60], PTuple [PInt 60, PInt 70]],
               [PTuple [PFloat (Fin (65 / 100)), PFloat (Fin (1 / 10))],
                PTuple [PFloat (Fin (65 / 100)), PFloat (Fin (1 / 10))]],
               [PInt 0, PInt 0], [PTuple [PInt 2, PInt 2], PTuple [PInt 2, PInt 2]],
               [PInt 10, PInt 10], [PInt 80, PInt 80],
               [PStr ''lines'', PStr ''lines''], [PInt 1, PInt 1]]
        = ([PTuple [PTuple [PInt 40, PInt 50], PTuple [PInt 50, PInt 60],
                    PTuple [PFloat (Fin (65 / 100)), PFloat (Fin (1 / 10))],
                    PInt 0, PTuple [PInt 2, PInt 2], PInt 10, PInt 80, PStr ''lines'', PInt 1],
            PTuple [PTuple [PInt 40, PInt 50], PTuple [PInt 60, PInt 70],
                    PTuple [PFloat (Fin (65 / 100)), PFloat (Fin (1 / 10))],
                    PInt 0, PTuple [PInt 2, PInt 2], PInt 10, PInt 80, PStr ''lines'', PInt 1]],
           it')"
    by (simp add: variables_as_iterators_def update_num_iterations_def defaults_def
        counted_variables_def variables_list_def getattr_def setattr_def count_step_def
        iterate.simps[of "_ # _"] zip_next_def eval_nat_numeral)
qed

theorem broadcast_policy_witness:
  "(\<forall>zs. PInt 2 \<noteq> PList zs) \<and>
   conv_to_list (PInt 2) 2 = Inr [PInt 2, PInt 2] \<and>
   [PTuple [PInt 40, PInt 50]] \<noteq> [] \<and> int (length [PTuple [PInt 40, PInt 50]]) < 2 \<and>
   conv_to_list (PList [PTuple [PInt 40, PInt 50]]) 2 = Inr [PTuple [PInt 40, PInt 50], PTuple [PInt 40, PInt 50]] \<and>
   (2::int) \<le> int (length [PTuple [PInt 50, PInt 60], PTuple [PInt 60, PInt 70]]) \<and>
   conv_to_list (PList [PTuple [PInt 50, PInt 60], PTuple [PInt 60, PInt 70]]) 2 = Inr [PTuple [PInt 50, PInt 60], PTuple [PInt 60, PInt 70]] \<and>
   variables_as_iterators (setattr defaults ''height_range'' (PList [PTuple [PInt 50, PInt 60], PTuple [PInt 60, PInt 70]])) =
     (Return [[PTuple [PInt 40, PInt 50], PTuple [PInt 40, PInt 50]],
      [PTuple [PInt 50, PInt 60], PTuple [PInt 60, PInt 70]],
      [PTuple [PFloat (Fin (65 / 100)), PFloat (Fin (1 / 10))],
       PTuple [PFloat (Fin (65 / 100)), PFloat (Fin (1 / 10))]],
      [PInt 0, PInt 0], [PTuple [PInt 2, PInt 2], PTuple [PInt 2, PInt 2]],
      [PInt 10, PInt 10], [PInt 80, PInt 80],
      [PStr ''lines'', PStr ''lines''], [PInt 1, PInt 1]],
      (setattr (setattr defaults ''height_range'' (PList [PTuple [PInt 50, PInt 60], PTuple [PInt 60, PInt 70]])) ''num_iterations'' (PInt 2))) \<and>
   iterate [[PTuple [PInt 40, PInt 50], PTuple [PInt 40, PInt 50]],
      [PTuple [PInt 50, PInt 60], PTuple [PInt 60, PInt 70]],
      [PTuple [PFloat (Fin (65 / 100)), PFloat (Fin (1 / 10))],
       PTuple [PFloat (Fin (65 / 100)), PFloat (Fin (1 / 10))]],
      [PInt 0, PInt 0], [PTuple [PInt 2, PInt 2], PTuple [PInt 2, PInt 2]],
      [PInt 10, PInt 10], [PInt 80, PInt 80],
      [PStr ''lines'', PStr ''lines''], [PInt 1, PInt 1]] =
     ([PTuple [PTuple [PInt 40, PInt 50], PTuple [PInt 50, PInt 60],
        PTuple [PFloat (Fin (65 / 100)), PFloat (Fin (1 / 10))],
        PInt 0, PTuple [PInt 2, PInt 2], PInt 10, PInt 80, PStr ''lines'', PInt 1],
      PTuple [PTuple [PInt 40, PInt 50], PTuple [PInt 60, PInt 70],
        PTuple [PFloat (Fin (65 / 100)), PFloat (Fin (1 / 10))],
        PInt 0, PTuple [PInt 2, PInt 2], PInt 10, PInt 80, PStr ''lines'', PInt 1]],
      [[], [], [], [], [], [], [], [], []]) \<and>
   getattrs (setattr defaults ''height_range'' (PList [PTuple [PInt 50, PInt 60], PTuple [PInt 60, PInt 70]])) variables_list =
     Inr [PList [PTuple [PInt 40, PInt 50]], PList [PTuple [PInt 50, PInt 60], PTuple [PInt 60, PInt 70]],
      PList [PTuple [PFloat (Fin (65 / 100)), PFloat (Fin (1 / 10))]],
      PList [PInt 0], PList [PTuple [PInt 2, PInt 2]], PList [PInt 10], PList [PInt 80],
      PList [PStr ''lines''], PList [PInt 1]] \<and>
   (1::nat) < length [PTuple [PTuple [PInt 40, PInt 50], PTuple [PInt 50, PInt 60],
        PTuple [PFloat (Fin (65 / 100)), PFloat (Fin (1 / 10))],
        PInt 0, PTuple [PInt 2, PInt 2], PInt 10, PInt 80, PStr ''lines'', PInt 1],
      PTuple [PTuple [PInt 40, PInt 50], PTuple [PInt 60, PInt 70],
        PTuple [PFloat (Fin (65 / 100)), PFloat (Fin (1 / 10))],
        PInt 0, PTuple [PInt 2, PInt 2], PInt 10, PInt 80, PStr ''lines'', PInt 1]] \<and>
   (1::nat) < length [PList [PTuple [PInt 40, PInt 50]], PList [PTuple [PInt 50, PInt 60], PTuple [PInt 60, PInt 70]],
      PList [PTuple [PFloat (Fin (65 / 100)), PFloat (Fin (1 / 10))]],
      PList [PInt 0], PList [PTuple [PInt 2, PInt 2]], PList [PInt 10], PList [PInt 80],
      PList [PStr ''lines''], PList [PInt 1]] \<and>
   (\<exists>comps. [PTuple [PTuple [PInt 40, PInt 50], PTuple [PInt 50, PInt 60],
        PTuple [PFloat (Fin (65 / 100)), PFloat (Fin (1 / 10))],
        PInt 0, PTuple [PInt 2, PInt 2], PInt 10, PInt 80, PStr ''lines'', PInt 1],
      PTuple [PTuple [PInt 40, PInt 50], PTuple [PInt 60, PInt 70],
        PTuple [PFloat (Fin (65 / 100)), PFloat (Fin (1 / 10))],
        PInt 0, PTuple [PInt 2, PInt 2], PInt 10, PInt 80, PStr ''lines'', PInt 1]] ! 1 = PTuple comps \<and> length comps = 9 \<and> comps ! 1 = PTuple [PInt 60, PInt 70])"
proof -
  have h4: "variables_as_iterators (setattr defaults ''height_range'' (PList [PTuple [PInt 50, PInt 60], PTuple [PInt 60, PInt 70]])) =
     (Return [[PTuple [PInt 40, PInt 50], PTuple [PInt 40, PInt 50]],
      [PTuple [PInt 50, PInt 60], PTuple [PInt 60, PInt 70]],
      [PTuple [PFloat (Fin (65 / 100)), PFloat (Fin (1 / 10))],
       PTuple [PFloat (Fin (65 / 100)), PFloat (Fin (1 / 10))]],
      [PInt 0, PInt 0], [PTuple [PInt 2, PInt 2], PTuple [PInt 2, PInt 2]],
      [PInt 10, PInt 10], [PInt 80, PInt 80],
      [PStr ''lines'', PStr ''lines''], [PInt 1, PInt 1]],
      (setattr (setattr defaults ''height_range'' (PList [PTuple [PInt 50, PInt 60], PTuple [PInt 60, PInt 70]])) ''num_iterations'' (PInt 2))) \<and>
   iterate [[PTuple [PInt 40, PInt 50], PTuple [PInt 40, PInt 50]],
      [PTuple [PInt 50, PInt 60], PTuple [PInt 60, PInt 70]],
      [PTuple [PFloat (Fin (65 / 100)), PFloat (Fin (1 / 10))],
       PTuple [PFloat (Fin (65 / 100)), PFloat (Fin (1 / 10))]],
      [PInt 0, PInt 0], [PTuple [PInt 2, PInt 2], PTuple [PInt 2, PInt 2]],
      [PInt 10, PInt 10], [PInt 80, PInt 80],
      [PStr ''lines'', PStr ''lines''], [PInt 1, PInt 1]] =
     ([PTuple [PTuple [PInt 40, PInt 50], PTuple [PInt 50, PInt 60],
        PTuple [PFloat (Fin (65 / 100)), PFloat (Fin (1 / 10))],
        PInt 0, PTuple [PInt 2, PInt 2], PInt 10, PInt 80, PStr ''lines'', PInt 1],
      PTuple [PTuple [PInt 40, PInt 50], PTuple [PInt 60, PInt 70],
        PTuple [PFloat (Fin (65 / 100)), PFloat (Fin (1 / 10))],
        PInt 0, PTuple [PInt 2, PInt 2], PInt 10, PInt 80, PStr ''lines'', PInt 1]],
      [[], [], [], [], [], [], [], [], []]) \<and>
   getattrs (setattr defaults ''height_range'' (PList [PTuple [PInt 50, PInt 60], PTuple [PInt 60, PInt 70]])) variables_list =
     Inr [PList [PTuple [PInt 40, PInt 50]], PList [PTuple [PInt 50, PInt 60], PTuple [PInt 60, PInt 70]],
      PList [PTuple [PFloat (Fin (65 / 100)), PFloat (Fin (1 / 10))]],
      PList [PInt 0], PList [PTuple [PInt 2, PInt 2]], PList [PInt 10], PList [PInt 80],
      PList [PStr ''lines''], PList [PInt 1]] \<and>
   (1::nat) < length [PTuple [PTuple [PInt 40, PInt 50], PTuple [PInt 50, PInt 60],
        PTuple [PFloat (Fin (65 / 100)), PFloat (Fin (1 / 10))],
        PInt 0, PTuple [PInt 2, PInt 2], PInt 10, PInt 80, PStr ''lines'', PInt 1],
      PTuple [PTuple [PInt 40, PInt 50], PTuple [PInt 60, PInt 70],
        PTuple [PFloat (Fin (65 / 100)), PFloat (Fin (1 / 10))],
        PInt 0, PTuple [PInt 2, PInt 2], PInt 10, PInt 80, PStr ''lines'', PInt 1]] \<and>
   (1::nat) < length [PList [PTuple [PInt 40, PInt 50]], PList [PTuple [PInt 50, PInt 60], PTuple [PInt 60, PInt 70]],
      PList [PTuple [PFloat (Fin (65 / 100)), PFloat (Fin (1 / 10))]],
      PList [PInt 0], PList [PTuple [PInt 2, PInt 2]], PList [PInt 10], PList [PInt 80],
      PList [PStr ''lines''], PList [PInt 1]]"
    by (simp add: variables_as_iterators_def update_num_iterations_def defaults_def
        counted_variables_def variables_list_def getattr_def setattr_def count_step_def
        iterate.simps[of "_ # _"] zip_next_def eval_nat_numeral)
  have h1: "\<forall>zs. PInt 2 \<noteq> PList zs" by simp
  have h2: "[PTuple [PInt 40, PInt 50]] \<noteq> [] \<and> int (length [PTuple [PInt 40, PInt 50]]) < 2" by simp
  have h3: "(2::int) \<le> int (length [PTuple [PInt 50, PInt 60], PTuple [PInt 60, PInt 70]])" by simp
  note t = broadcast_policy[of "PInt 2" 2 "[PTuple [PInt 40, PInt 50]]" "[PTuple [PInt 50, PInt 60], PTuple [PInt 60, PInt 70]]"
      "(setattr defaults ''height_range'' (PList [PTuple [PInt 50, PInt 60], PTuple [PInt 60, PInt 70]]))"
      "[[PTuple [PInt 40, PInt 50], PTuple [PInt 40, PInt 50]],
      [PTuple [PInt 50, PInt 60], PTuple [PInt 60, PInt 70]],
      [PTuple [PFloat (Fin (65 / 100)), PFloat (Fin (1 / 10))],
       PTuple [PFloat (Fin (65 / 100)), PFloat (Fin (1 / 10))]],
      [PInt 0, PInt 0], [PTuple [PInt 2, PInt 2], PTuple [PInt 2, PInt 2]],
      [PInt 10, PInt 10], [PInt 80, PInt 80],
      [PStr ''lines'', PStr ''lines''], [PInt 1, PInt 1]]"
      "(setattr (setattr defaults ''height_range'' (PList [PTuple [PInt 50, PInt 60], PTuple [PInt 60, PInt 70]])) ''num_iterations'' (PInt 2))"
      "[PTuple [PTuple [PInt 40, PInt 50], PTuple [PInt 50, PInt 60],
        PTuple [PFloat (Fin (65 / 100)), PFloat (Fin (1 / 10))],
        PInt 0, PTuple [PInt 2, PInt 2], PInt 10, PInt 80, PStr ''lines'', PInt 1],
      PTuple [PTuple [PInt 40, PInt 50], PTuple [PInt 60, PInt 70],
        PTuple [PFloat (Fin (65 / 100)), PFloat (Fin (1 / 10))],
        PInt 0, PTuple [PInt 2, PInt 2], PInt 10, PInt 80, PStr ''lines'', PInt 1]]"
      "[[], [], [], [], [], [], [], [], []]"
      "[PList [PTuple [PInt 40, PInt 50]], PList [PTuple [PInt 50, PInt 60], PTuple [PInt 60, PInt 70]],
      PList [PTuple [PFloat (Fin (65 / 100)), PFloat (Fin (1 / 10))]],
      PList [PInt 0], PList [PTuple [PInt 2, PInt 2]], PList [PInt 10], PList [PInt 80],
      PList [PStr ''lines''], PList [PInt 1]]"
      1 1]
  from t h1 have c1: "conv_to_list (PInt 2) 2 = Inr [PInt 2, PInt 2]"
    by (simp add: eval_nat_numeral)
  from t h2 have c2: "conv_to_list (PList [PTuple [PInt 40, PInt 50]]) 2 = Inr [PTuple [PInt 40, PInt 50], PTuple [PInt 40, PInt 50]]"
    by (simp add: eval_nat_numeral)
  from t h3 have c3: "conv_to_list (PList [PTuple [PInt 50, PInt 60], PTuple [PInt 60, PInt 70]]) 2 = Inr [PTuple [PInt 50, PInt 60], PTuple [PInt 60, PInt 70]]"
    by simp
  from t h4 have c4: "(\<exists>comps. [PTuple [PTuple [PInt 40, PInt 50], PTuple [PInt 50, PInt 60],
        PTuple [PFloat (Fin (65 / 100)), PFloat (Fin (1 / 10))],
        PInt 0, PTuple [PInt 2, PInt 2], PInt 10, PInt 80, PStr ''lines'', PInt 1],
      PTuple [PTuple [PInt 40, PInt 50], PTuple [PInt 60, PInt 70],
        PTuple [PFloat (Fin (65 / 100)), PFloat (Fin (1 / 10))],
        PInt 0, PTuple [PInt 2, PInt 2], PInt 10, PInt 80, PStr ''lines'', PInt 1]] ! 1 = PTuple comps \<and> length comps = 9 \<and> comps ! 1 = PTuple [PInt 60, PInt 70])"
    by simp
  from h1 h2 h3 h4 c1 c2 c3 c4 show ?thesis by blast
qed

subsection \<open>The auto-calibrator\<close>

lemma select_group_empty_sample:
  "select_group [] clusters i = (if clusters = [] then Inr [] else Inl IndexError)"
  by (simp add: select_group_def)

lemma hw_rows_empty_sample:
  "clusters \<noteq> [] \<Longrightarrow> labels \<noteq> [] \<Longrightarrow> hw_rows mp lm ur thr [] clusters labels = Inl IndexError"
  by (cases labels) (simp_all add: select_group_def)

text \<open>
  C5. On an empty measurement sample \<^verbatim>\<open>autoconfigure\<close> raises, whatever the clustering does
  with it (raise, or return any labels), and the object is exactly as it was before the call.
\<close>

theorem calibrate_empty_sample_fails:
  "\<exists>e. autoconfigure fit_predict self [] epsilon margin_percent margin_px_limit
          use_rect_kernel_for_small rect_kernel_threshold = (Raise e, self)"
proof (cases "fit_predict epsilon []")
  case (Inl e)
  then show ?thesis by (simp add: autoconfigure_def)
next
  case (Inr clusters)
  show ?thesis
  proof (cases clusters)
    case Nil
    with Inr show ?thesis by (simp add: autoconfigure_def py_max_def)
  next
    case (Cons c cs)
    then obtain m where m: "py_max clusters = Inr m" by (simp add: py_max_def)
    show ?thesis
    proof (cases "map int [0 ..< nat (m + 1)] = []")
      case True
      then have "hw_rows margin_percent margin_px_limit use_rect_kernel_for_small
          rect_kernel_threshold [] clusters (map int [0 ..< nat (m + 1)]) = Inr []"
        by simp
      with Inr m show ?thesis by (simp add: autoconfigure_def)
    next
      case False
      with Cons have "hw_rows margin_percent margin_px_limit use_rect_kernel_for_small
          rect_kernel_threshold [] clusters (map int [0 ..< nat (m + 1)]) = Inl IndexError"
        by (intro hw_rows_empty_sample) simp_all
      with Inr m show ?thesis by (simp add: autoconfigure_def)
    qed
  qed
qed

lemma hw_rows_Inr:
  "hw_rows mp lm ur thr box_sizes clusters labels = Inr rows \<Longrightarrow>
     length rows = length labels \<and>
     (\<forall>k<length labels. \<exists>grp. select_group box_sizes clusters (labels ! k) = Inr grp \<and>
        group_row mp lm ur thr grp = Inr (rows ! k))"
proof (induction labels arbitrary: rows)
  case Nil
  then show ?case by simp
next
  case (Cons i labels)
  from Cons.prems obtain grp row rest where
    g: "select_group box_sizes clusters i = Inr grp" and
    r: "group_row mp lm ur thr grp = Inr row" and
    h: "hw_rows mp lm ur thr box_sizes clusters labels = Inr rest" and
    rows: "rows = row # rest"
    by (auto split: sum.splits)
  from Cons.IH[OF h] have IH: "length rest = length labels"
    "\<forall>k<length labels. \<exists>grp. select_group box_sizes clusters (labels ! k) = Inr grp \<and>
        group_row mp lm ur thr grp = Inr (rest ! k)"
    by auto
  show ?case
  proof (intro conjI allI impI)
    show "length rows = length (i # labels)" using IH(1) rows by simp
  next
    fix k assume "k < length (i # labels)"
    then show "\<exists>grp. select_group box_sizes clusters ((i # labels) ! k) = Inr grp \<and>
        group_row mp lm ur thr grp = Inr (rows ! k)"
      using g r IH(2) rows by (cases k) auto
  qed
qed

lemma group_row_Inr:
  "group_row mp lm ur thr grp = Inr row \<Longrightarrow>
     \<exists>minh maxh minw maxw.
        py_min (map fst grp) = Inr minh \<and> py_max (map fst grp) = Inr maxh \<and>
        py_min (map snd grp) = Inr minw \<and> py_max (map snd grp) = Inr maxw \<and>
        row = [PTuple [PInt (minh - add_margin_to_size minh mp lm),
                       PInt (maxh + add_margin_to_size maxh mp lm)],
               PTuple [PInt (minw - add_margin_to_size minw mp lm),
                       PInt (maxw + add_margin_to_size maxw mp lm)],
               PList (map PFloat
                 (sorted_pair
                    (np_true_divide (minw - add_margin_to_size minw mp lm)
                                    (minh - add_margin_to_size minh mp lm))
                    (np_true_divide (maxw + add_margin_to_size maxw mp lm)
                                    (maxh + add_margin_to_size maxh mp lm)))),
               PStr (if ur \<and> maxh \<le> thr \<and> maxw \<le> thr then ''rectangles'' else ''lines'')]"
  by (auto simp: group_row_def Let_def split: sum.splits)

lemma getattr_update_num_iterations:
  "update_num_iterations self = (Return (), self') \<Longrightarrow> k \<noteq> ''num_iterations'' \<Longrightarrow>
     getattr self' k = getattr self k"
  by (auto simp: update_num_iterations_eq getattr_setattr split: sum.splits)

lemma autoconfigure_ReturnD:
  assumes "autoconfigure fit_predict self box_sizes epsilon mp lm ur thr = (Return (), self')"
  shows "\<exists>clusters m rows.
           fit_predict epsilon box_sizes = Inr clusters \<and> py_max clusters = Inr m \<and>
           hw_rows mp lm ur thr box_sizes clusters (map int [0 ..< nat (m + 1)]) = Inr rows \<and>
           rows \<noteq> [] \<and>
           getattr self' ''width_range'' = Inr (column 1 rows) \<and>
           getattr self' ''height_range'' = Inr (column 0 rows) \<and>
           getattr self' ''wh_ratio_range'' = Inr (column 2 rows) \<and>
           getattr self' ''morph_kernels_type'' = Inr (column 3 rows)"
proof -
  from assms obtain clusters where c: "fit_predict epsilon box_sizes = Inr clusters"
    by (cases "fit_predict epsilon box_sizes") (auto simp: autoconfigure_def)
  from assms c obtain m where m: "py_max clusters = Inr m"
    by (cases "py_max clusters") (auto simp: autoconfigure_def)
  from assms c m obtain rows where
    r: "hw_rows mp lm ur thr box_sizes clusters (map int [0 ..< nat (m + 1)]) = Inr rows"
    by (cases "hw_rows mp lm ur thr box_sizes clusters (map int [0 ..< nat (m + 1)])")
       (auto simp: autoconfigure_def)
  from assms c m r have ne: "rows \<noteq> []"
    by (auto simp: autoconfigure_def)
  let ?s4 = "setattr (setattr (setattr (setattr self ''width_range'' (column 1 rows))
      ''height_range'' (column 0 rows)) ''wh_ratio_range'' (column 2 rows))
      ''morph_kernels_type'' (column 3 rows)"
  from assms c m r ne have u: "update_num_iterations ?s4 = (Return (), self')"
    by (simp add: autoconfigure_def Let_def)
  have "getattr self' ''width_range'' = Inr (column 1 rows)"
    using getattr_update_num_iterations[OF u, of "''width_range''"]
    by (simp add: getattr_setattr)
  moreover have "getattr self' ''height_range'' = Inr (column 0 rows)"
    using getattr_update_num_iterations[OF u, of "''height_range''"]
    by (simp add: getattr_setattr)
  moreover have "getattr self' ''wh_ratio_range'' = Inr (column 2 rows)"
    using getattr_update_num_iterations[OF u, of "''wh_ratio_range''"]
    by (simp add: getattr_setattr)
  moreover have "getattr self' ''morph_kernels_type'' = Inr (column 3 rows)"
    using getattr_update_num_iterations[OF u, of "''morph_kernels_type''"]
    by (simp add: getattr_setattr)
  ultimately show ?thesis using c m r ne by blast
qed

lemma autoconfigure_groups:
  assumes "autoconfigure fit_predict self box_sizes epsilon mp lm ur thr = (Return (), self')"
  shows "\<exists>clusters m hs ws rs ks.
           fit_predict epsilon box_sizes = Inr clusters \<and> py_max clusters = Inr m \<and>
           getattr self' ''height_range'' = Inr (PList hs) \<and>
           getattr self' ''width_range'' = Inr (PList ws) \<and>
           getattr self' ''wh_ratio_range'' = Inr (PList rs) \<and>
           getattr self' ''morph_kernels_type'' = Inr (PList ks) \<and>
           length hs = nat (m + 1) \<and> length ws = nat (m + 1) \<and>
           length rs = nat (m + 1) \<and> length ks = nat (m + 1) \<and>
           (\<forall>i<nat (m + 1). \<exists>grp.
              select_group box_sizes clusters (int i) = Inr grp \<and>
              group_row mp lm ur thr grp = Inr [hs ! i, ws ! i, rs ! i, ks ! i])"
proof -
  from autoconfigure_ReturnD[OF assms] obtain clusters m rows where
    c: "fit_predict epsilon box_sizes = Inr clusters" and m: "py_max clusters = Inr m" and
    r: "hw_rows mp lm ur thr box_sizes clusters (map int [0 ..< nat (m + 1)]) = Inr rows" and
    w: "getattr self' ''width_range'' = Inr (column 1 rows)" and
    h: "getattr self' ''height_range'' = Inr (column 0 rows)" and
    q: "getattr self' ''wh_ratio_range'' = Inr (column 2 rows)" and
    k: "getattr self' ''morph_kernels_type'' = Inr (column 3 rows)"
    by blast
  from hw_rows_Inr[OF r] have len: "length rows = nat (m + 1)" and
    each: "\<forall>i<nat (m + 1). \<exists>grp. select_group box_sizes clusters (int i) = Inr grp \<and>
        group_row mp lm ur thr grp = Inr (rows ! i)"
    by auto
  have "\<exists>grp. select_group box_sizes clusters (int i) = Inr grp \<and>
          group_row mp lm ur thr grp =
            Inr [map (\<lambda>row. row ! 0) rows ! i, map (\<lambda>row. row ! 1) rows ! i,
                 map (\<lambda>row. row ! 2) rows ! i, map (\<lambda>row. row ! 3) rows ! i]"
    if "i < nat (m + 1)" for i
  proof -
    from each that obtain grp where g: "select_group box_sizes clusters (int i) = Inr grp"
      and gr: "group_row mp lm ur thr grp = Inr (rows ! i)"
      by blast
    from group_row_Inr[OF gr] obtain a b c d where "rows ! i = [a, b, c, d]"
      by blast
    with that len have "[map (\<lambda>row. row ! 0) rows ! i, map (\<lambda>row. row ! 1) rows ! i,
                 map (\<lambda>row. row ! 2) rows ! i, map (\<lambda>row. row ! 3) rows ! i] = rows ! i"
      by (simp add: eval_nat_numeral)
    with g gr show ?thesis by auto
  qed
  with c m w h q k len show ?thesis
    unfolding column_def
    by (intro exI[of _ clusters] exI[of _ m] exI[of _ "map (\<lambda>row. row ! 0) rows"]
        exI[of _ "map (\<lambda>row. row ! 1) rows"] exI[of _ "map (\<lambda>row. row ! 2) rows"]
        exI[of _ "map (\<lambda>row. row ! 3) rows"]) simp
qed







text \<open>
  C7. For every cluster group the entry of \<^verbatim>\<open>morph_kernels_type\<close> is \<open>rectangles\<close> exactly when
  \<^verbatim>\<open>use_rect_kernel_for_small\<close> holds and the unpadded maximum height and maximum width are
  both at most \<^verbatim>\<open>rect_kernel_threshold\<close>, and \<open>lines\<close> otherwise. Maxima 25 and 28 with the
  flag and threshold 30 give \<open>rectangles\<close>; maximum height 35 gives \<open>lines\<close> whatever the flag.
\<close>

theorem kernel_variant_policy:
  assumes "autoconfigure fit_predict self box_sizes epsilon mp lm ur thr = (Return (), self')"
  shows "(\<exists>clusters m ks.
           fit_predict epsilon box_sizes = Inr clusters \<and> py_max clusters = Inr m \<and>
           getattr self' ''morph_kernels_type'' = Inr (PList ks) \<and> length ks = nat (m + 1) \<and>
           (\<forall>i<nat (m + 1). \<exists>grp maxh maxw.
              select_group box_sizes clusters (int i) = Inr grp \<and>
              py_max (map fst grp) = Inr maxh \<and> py_max (map snd grp) = Inr maxw \<and>
              (ks ! i = PStr ''rectangles'' \<or> ks ! i = PStr ''lines'') \<and>
              (ks ! i = PStr ''rectangles'') = (ur \<and> maxh \<le> thr \<and> maxw \<le> thr))) \<and>
         (\<exists>a b c. group_row mp lm True 30 [(25, 28)] = Inr [a, b, c, PStr ''rectangles'']) \<and>
         (\<exists>a b c. group_row mp lm ur 30 [(35, w)] = Inr [a, b, c, PStr ''lines''])"
proof (intro conjI)
  from autoconfigure_groups[OF assms] obtain clusters m hs ws rs ks where
    c: "fit_predict epsilon box_sizes = Inr clusters" and m: "py_max clusters = Inr m" and
    k: "getattr self' ''morph_kernels_type'' = Inr (PList ks)" and
    len: "length ks = nat (m + 1)" and
    each: "\<forall>i<nat (m + 1). \<exists>grp.
              select_group box_sizes clusters (int i) = Inr grp \<and>
              group_row mp lm ur thr grp = Inr [hs ! i, ws ! i, rs ! i, ks ! i]"
    by blast
  have "\<exists>grp maxh maxw.
              select_group box_sizes clusters (int i) = Inr grp \<and>
              py_max (map fst grp) = Inr maxh \<and> py_max (map snd grp) = Inr maxw \<and>
              (ks ! i = PStr ''rectangles'' \<or> ks ! i = PStr ''lines'') \<and>
              (ks ! i = PStr ''rectangles'') = (ur \<and> maxh \<le> thr \<and> maxw \<le> thr)"
    if "i < nat (m + 1)" for i
  proof -
    from each that obtain grp where g: "select_group box_sizes clusters (int i) = Inr grp"
      and gr: "group_row mp lm ur thr grp = Inr [hs ! i, ws ! i, rs ! i, ks ! i]"
      by blast
    from group_row_Inr[OF gr] obtain maxh maxw where
      "py_max (map fst grp) = Inr maxh" "py_max (map snd grp) = Inr maxw"
      "ks ! i = PStr (if ur \<and> maxh \<le> thr \<and> maxw \<le> thr then ''rectangles'' else ''lines'')"
      by auto
    with g show ?thesis by auto
  qed
  with c m k len show "\<exists>clusters m ks.
           fit_predict epsilon box_sizes = Inr clusters \<and> py_max clusters = Inr m \<and>
           getattr self' ''morph_kernels_type'' = Inr (PList ks) \<and> length ks = nat (m + 1) \<and>
           (\<forall>i<nat (m + 1). \<exists>grp maxh maxw.
              select_group box_sizes clusters (int i) = Inr grp \<and>
              py_max (map fst grp) = Inr maxh \<and> py_max (map snd grp) = Inr maxw \<and>
              (ks ! i = PStr ''rectangles'' \<or> ks ! i = PStr ''lines'') \<and>
              (ks ! i = PStr ''rectangles'') = (ur \<and> maxh \<le> thr \<and> maxw \<le> thr))"
    by blast
next
  show "\<exists>a b c. group_row mp lm True 30 [(25, 28)] = Inr [a, b, c, PStr ''rectangles'']"
    by (simp add: group_row_def py_min_def py_max_def Let_def)
next
  show "\<exists>a b c. group_row mp lm ur 30 [(35, w)] = Inr [a, b, c, PStr ''lines'']"
    by (simp add: group_row_def py_min_def py_max_def Let_def)
qed

theorem kernel_variant_policy_witness:
  "\<exists>self'. autoconfigure (\<lambda>eps bs. Inr [0, 0]) defaults [(20, 30), (22, 28)] 5 (1 / 10) 5 True 30 = (Return (), self') \<and>
     getattr self' ''morph_kernels_type'' = Inr (PList [PStr ''rectangles'']) \<and>
     (\<exists>clusters m ks.
           (Inr [0, 0] :: error + int list) = Inr clusters \<and> py_max clusters = Inr m \<and>
           getattr self' ''morph_kernels_type'' = Inr (PList ks) \<and> length ks = nat (m + 1) \<and>
           (\<forall>i<nat (m + 1). \<exists>grp maxh maxw.
              select_group [(20, 30), (22, 28)] clusters (int i) = Inr grp \<and>
              py_max (map fst grp) = Inr maxh \<and> py_max (map snd grp) = Inr maxw \<and>
              (ks ! i = PStr ''rectangles'' \<or> ks ! i = PStr ''lines'') \<and>
              (ks ! i = PStr ''rectangles'') = (True \<and> maxh \<le> 30 \<and> maxw \<le> 30)))"
proof -
  have "\<exists>self'. autoconfigure (\<lambda>eps bs. Inr [0, 0]) defaults [(20, 30), (22, 28)] 5 (1 / 10) 5 True 30 = (Return (), self') \<and>
     getattr self' ''morph_kernels_type'' = Inr (PList [PStr ''rectangles''])"
    by (simp add: autoconfigure_def py_max_def py_min_def select_group_def group_row_def
        add_margin_to_size_def py_int_def np_true_divide_def sorted_pair_def column_def
        update_num_iterations_eq defaults_def setattr_def getattr_def counted_variables_def
        Let_def)
  then obtain self' where a: "autoconfigure (\<lambda>eps bs. Inr [0, 0]) defaults [(20, 30), (22, 28)] 5 (1 / 10) 5 True 30 = (Return (), self')"
    and v: "getattr self' ''morph_kernels_type'' = Inr (PList [PStr ''rectangles''])"
    by blast
  have "\<exists>clusters m ks.
           (Inr [0, 0] :: error + int list) = Inr clusters \<and> py_max clusters = Inr m \<and>
           getattr self' ''morph_kernels_type'' = Inr (PList ks) \<and> length ks = nat (m + 1) \<and>
           (\<forall>i<nat (m + 1). \<exists>grp maxh maxw.
              select_group [(20, 30), (22, 28)] clusters (int i) = Inr grp \<and>
              py_max (map fst grp) = Inr maxh \<and> py_max (map snd grp) = Inr maxw \<and>
              (ks ! i = PStr ''rectangles'' \<or> ks ! i = PStr ''lines'') \<and>
              (ks ! i = PStr ''rectangles'') = (True \<and> maxh \<le> 30 \<and> maxw \<le> 30))"
    by (rule kernel_variant_policy[OF a, THEN conjunct1])
  with a v show ?thesis by blast
qed



subsection \<open>The persistence adapter\<close>























end
